theory Spec2Isabelle
  imports Main
begin

section \<open>Strings as Python sees them (ASCII)\<close>

text \<open>
  Paths, patterns and file contents are \<open>string\<close>s. The model covers ASCII text: \<open>lower\<close>
  maps \<open>A\<close>..\<open>Z\<close> to \<open>a\<close>..\<open>z\<close> and leaves every other character alone, and the
  whitespace that \<open>str.strip()\<close> removes is the ASCII whitespace of Python's \<open>str.isspace\<close>
  (codes 9 to 13, 28 to 32).
\<close>

definition lower_char :: "char \<Rightarrow> char" where
  "lower_char c =
     (let n = (of_char c :: nat) in if 65 \<le> n \<and> n \<le> 90 then char_of (n + 32) else c)"

definition lower :: "string \<Rightarrow> string" where
  "lower s = map lower_char s"

definition is_space :: "char \<Rightarrow> bool" where
  "is_space c = (let n = (of_char c :: nat) in (9 \<le> n \<and> n \<le> 13) \<or> (28 \<le> n \<and> n \<le> 32))"

definition strip :: "string \<Rightarrow> string" where
  "strip s = rev (dropWhile is_space (rev (dropWhile is_space s)))"

text \<open>
  \<open>s.isascii()\<close>: every character of the text is below 128. On such text \<open>lower\<close> and
  \<open>strip\<close> above are \<open>str.lower\<close> and \<open>str.strip\<close>; the properties that depend on them are
  stated for ASCII text.
\<close>

definition is_ascii :: "string \<Rightarrow> bool" where
  "is_ascii s = list_all (\<lambda>c. (of_char c :: nat) < 128) s"

text \<open>\<open>s.startswith(p)\<close>.\<close>

fun startswith :: "string \<Rightarrow> string \<Rightarrow> bool" where
  "startswith s [] = True"
| "startswith [] (p # ps) = False"
| "startswith (c # cs) (p # ps) = (c = p \<and> startswith cs ps)"

text \<open>\<open>p in s\<close> on strings: \<open>p\<close> occurs in \<open>s\<close> as a contiguous run.\<close>

fun str_in :: "string \<Rightarrow> string \<Rightarrow> bool" where
  "str_in p [] = (p = [])"
| "str_in p (c # cs) = (startswith (c # cs) p \<or> str_in p cs)"

section \<open>Text files as the loaders read them\<close>




section \<open>Exclusion patterns (\<open>main.py\<close>, \<open>load_exclude_paths\<close>)\<close>



section \<open>Exclusion matching (\<open>main.py\<close>, \<open>is_path_excluded\<close>)\<close>

text \<open>
  \<open>excluded_paths\<close> is a Python set; the \<open>for\<close> loop visits its members in some order
  and returns at the first match. The list is that order of visit.
\<close>

fun excluded_scan :: "string \<Rightarrow> string list \<Rightarrow> bool" where
  "excluded_scan file_path_lower [] = False"
| "excluded_scan file_path_lower (excluded # rest) =
     (if str_in excluded file_path_lower then True else excluded_scan file_path_lower rest)"

definition is_path_excluded :: "string \<Rightarrow> string list \<Rightarrow> bool" where
  "is_path_excluded file_path excluded_paths = excluded_scan (lower file_path) excluded_paths"

section \<open>Paths (\<open>posixpath\<close>)\<close>

text \<open>
  \<open>os.path.join\<close>, \<open>os.path.basename\<close> and \<open>os.path.splitext\<close> as \<open>posixpath\<close> defines
  them, with \<open>/\<close> as the separator.
\<close>

definition path_join :: "string \<Rightarrow> string \<Rightarrow> string" where
  "path_join a b =
     (if startswith b ''/'' then b
      else if a = [] \<or> last a = CHR ''/'' then a @ b
      else a @ ''/'' @ b)"

definition basename :: "string \<Rightarrow> string" where
  "basename p = rev (takeWhile (\<lambda>c. c \<noteq> CHR ''/'') (rev p))"

text \<open>
  The second component of \<open>os.path.splitext(p)\<close>: the text from the last dot of the last
  path component on, unless only dots come before that dot in the component.
\<close>

definition splitext_ext :: "string \<Rightarrow> string" where
  "splitext_ext p =
     (let r = rev (basename p);
          ext_rev = takeWhile (\<lambda>c. c \<noteq> CHR ''.'') r
      in case dropWhile (\<lambda>c. c \<noteq> CHR ''.'') r of
           [] \<Rightarrow> []
         | dot # stem_rev \<Rightarrow>
             (if dropWhile (\<lambda>c. c = CHR ''.'') (rev stem_rev) = [] then []
              else rev (ext_rev @ [dot])))"

definition get_file_extension :: "string \<Rightarrow> string" where
  "get_file_extension file_path = lower (splitext_ext file_path)"

definition SUPPORTED_EXTENSIONS :: "string list" where
  "SUPPORTED_EXTENSIONS =
     [''.txt'', ''.docx'', ''.doc'', ''.pptx'', ''.ppt'', ''.md'',
      ''.pdf'', ''.xlsx'', ''.xls'', ''.csv'', ''.json'', ''.xml'']"

definition is_supported_file :: "string \<Rightarrow> bool" where
  "is_supported_file file_path = (get_file_extension file_path \<in> set SUPPORTED_EXTENSIONS)"

section \<open>File discovery (\<open>main.py\<close>, \<open>find_all_files\<close>)\<close>

text \<open>
  The directory tree under the source directory: a directory lists its subdirectories,
  each with its own tree, and its file names. \<open>NoAccess\<close> is a directory \<open>os.walk\<close> yields
  nothing for: one it cannot list (its \<open>onerror\<close> is unset, so the error is dropped) or a
  symbolic link to a directory (not followed).
\<close>

datatype dir_tree = NoAccess | Dir "(string \<times> dir_tree) list" "string list"

text \<open>
  \<open>os.walk(directory)\<close>, top down, together with the loop body's in-place pruning of
  \<open>dirs\<close>: the \<open>(root, filenames)\<close> pairs the loop body sees, in order. A subdirectory whose
  joined path is excluded is removed from \<open>dirs\<close> and never walked.
\<close>

fun os_walk :: "string \<Rightarrow> dir_tree \<Rightarrow> string list \<Rightarrow> (string \<times> string list) list"
  and os_walk_dirs :: "string \<Rightarrow> (string \<times> dir_tree) list \<Rightarrow> string list \<Rightarrow> (string \<times> string list) list"
where
  "os_walk root NoAccess excluded_paths = []"
| "os_walk root (Dir dirs filenames) excluded_paths =
     (root, filenames) # os_walk_dirs root dirs excluded_paths"
| "os_walk_dirs root [] excluded_paths = []"
| "os_walk_dirs root ((d, t) # rest) excluded_paths =
     (if is_path_excluded (path_join root d) excluded_paths
      then os_walk_dirs root rest excluded_paths
      else os_walk (path_join root d) t excluded_paths @ os_walk_dirs root rest excluded_paths)"

text \<open>The inner loop over \<open>filenames\<close>.\<close>

fun keep_files :: "string \<Rightarrow> string list \<Rightarrow> string list \<Rightarrow> string list" where
  "keep_files root [] excluded_paths = []"
| "keep_files root (filename # rest) excluded_paths =
     (let file_path = path_join root filename in
      if \<not> is_path_excluded file_path excluded_paths \<and> is_supported_file file_path
      then file_path # keep_files root rest excluded_paths
      else keep_files root rest excluded_paths)"

definition find_all_files :: "string \<Rightarrow> dir_tree \<Rightarrow> string list \<Rightarrow> string list" where
  "find_all_files directory tree excluded_paths =
     concat (map (\<lambda>(root, filenames). keep_files root filenames excluded_paths)
                 (os_walk directory tree excluded_paths))"

text \<open>The paths of the files a walk lists: every file name joined to its directory.\<close>

definition walk_paths :: "(string \<times> string list) list \<Rightarrow> string list" where
  "walk_paths w = concat (map (\<lambda>(root, filenames). map (path_join root) filenames) w)"


text \<open>
  Names as a file system has them: not empty, no separator inside. \<open>names_ok\<close> holds when
  every directory and file name of the tree is such a name.
\<close>

definition valid_name :: "string \<Rightarrow> bool" where
  "valid_name n = (n \<noteq> [] \<and> CHR ''/'' \<notin> set n)"

fun names_ok :: "dir_tree \<Rightarrow> bool"
  and names_ok_dirs :: "(string \<times> dir_tree) list \<Rightarrow> bool"
where
  "names_ok NoAccess = True"
| "names_ok (Dir dirs filenames) = (names_ok_dirs dirs \<and> list_all valid_name filenames)"
| "names_ok_dirs [] = True"
| "names_ok_dirs ((d, t) # rest) = (valid_name d \<and> names_ok t \<and> names_ok_dirs rest)"

text \<open>Every directory and file name of the tree is ASCII text.\<close>

fun ascii_names :: "dir_tree \<Rightarrow> bool"
  and ascii_names_dirs :: "(string \<times> dir_tree) list \<Rightarrow> bool"
where
  "ascii_names NoAccess = True"
| "ascii_names (Dir dirs filenames) = (ascii_names_dirs dirs \<and> list_all is_ascii filenames)"
| "ascii_names_dirs [] = True"
| "ascii_names_dirs ((d, t) # rest) = (is_ascii d \<and> ascii_names t \<and> ascii_names_dirs rest)"

text \<open>
  In a file system the subdirectories of a directory have different names, and so have
  its files.
\<close>

fun unique_names :: "dir_tree \<Rightarrow> bool"
  and unique_names_dirs :: "(string \<times> dir_tree) list \<Rightarrow> bool"
where
  "unique_names NoAccess = True"
| "unique_names (Dir dirs filenames) =
     (distinct (map fst dirs) \<and> distinct filenames \<and> unique_names_dirs dirs)"
| "unique_names_dirs [] = True"
| "unique_names_dirs ((d, t) # rest) = (unique_names t \<and> unique_names_dirs rest)"

text \<open>What \<open>os.path.join\<close> puts before a name it appends to a directory.\<close>

definition dir_prefix :: "string \<Rightarrow> string" where
  "dir_prefix r = (if r = [] \<or> last r = CHR ''/'' then r else r @ ''/'')"

section \<open>Dates and number formatting (\<open>datetime\<close>, format strings)\<close>

text \<open>
  \<open>file_date\<close> is the local date and time of the file's \<open>ctime\<close>; only its calendar date
  is used. The ISO week is computed as \<open>date.isocalendar()\<close> computes it, from proleptic
  Gregorian day numbers.
\<close>

record datetime =
  year :: int
  month :: int
  day :: int

definition is_leap :: "int \<Rightarrow> bool" where
  "is_leap y = (y mod 4 = 0 \<and> (y mod 100 \<noteq> 0 \<or> y mod 400 = 0))"

definition days_before_year :: "int \<Rightarrow> int" where
  "days_before_year y = (let p = y - 1 in p * 365 + p div 4 - p div 100 + p div 400)"


definition DAYS_BEFORE_MONTH :: "int list" where
  "DAYS_BEFORE_MONTH = [0, 31, 59, 90, 120, 151, 181, 212, 243, 273, 304, 334]"


definition days_before_month :: "int \<Rightarrow> int \<Rightarrow> int" where
  "days_before_month y m =
     DAYS_BEFORE_MONTH ! nat (m - 1) + (if m > 2 \<and> is_leap y then 1 else 0)"

definition ymd2ord :: "int \<Rightarrow> int \<Rightarrow> int \<Rightarrow> int" where
  "ymd2ord y m d = days_before_year y + days_before_month y m + d"


text \<open>The day number of the Monday that starts ISO week 1 of a year.\<close>

definition isoweek1monday :: "int \<Rightarrow> int" where
  "isoweek1monday y =
     (let firstday = ymd2ord y 1 1;
          firstweekday = (firstday + 6) mod 7;
          week1monday = firstday - firstweekday
      in if firstweekday > 3 then week1monday + 7 else week1monday)"

text \<open>\<open>isocalendar()\<close>: ISO year, ISO week, ISO weekday.\<close>

definition isocalendar :: "datetime \<Rightarrow> int \<times> int \<times> int" where
  "isocalendar dt =
     (let y = year dt;
          week1monday = isoweek1monday y;
          today = ymd2ord y (month dt) (day dt);
          week = (today - week1monday) div 7;
          wday = (today - week1monday) mod 7
      in if week < 0 then
           (let week1monday = isoweek1monday (y - 1)
            in (y - 1, (today - week1monday) div 7 + 1, (today - week1monday) mod 7 + 1))
         else if week \<ge> 52 then
           (if today \<ge> isoweek1monday (y + 1) then (y + 1, 1, wday + 1)
            else (y, week + 1, wday + 1))
         else (y, week + 1, wday + 1))"

definition get_week_number :: "datetime \<Rightarrow> int" where
  "get_week_number dt = fst (snd (isocalendar dt))"



text \<open>Decimal digits of a natural number, as \<open>str\<close> and \<open>{n}\<close> print it.\<close>

definition digit_char :: "nat \<Rightarrow> char" where
  "digit_char n = char_of (48 + n)"

fun dec :: "nat \<Rightarrow> string" where
  "dec n = (if n < 10 then [digit_char n] else dec (n div 10) @ [digit_char (n mod 10)])"

text \<open>A number below 100 in two digits, a number below 10000 in four.\<close>

definition two_digits :: "nat \<Rightarrow> string" where
  "two_digits n = [digit_char (n div 10), digit_char (n mod 10)]"


text \<open>The format \<open>{n:02d}\<close>: at least two characters, padded with a zero, the sign counted.\<close>

definition format_02d :: "int \<Rightarrow> string" where
  "format_02d n =
     (if n < 0 then ''-'' @ dec (nat (- n))
      else if n < 10 then ''0'' @ dec (nat n)
      else dec (nat n))"

text \<open>
  \<open>strftime("%Y")\<close> and \<open>strftime("%m")\<close>. For a year below 1000 the C library decides
  whether \<open>%Y\<close> pads with zeros; the model does not pad, and the properties below are about
  the years from 1000 on.
\<close>

definition strftime_Y :: "datetime \<Rightarrow> string" where
  "strftime_Y dt = dec (nat (year dt))"

definition strftime_m :: "datetime \<Rightarrow> string" where
  "strftime_m dt = format_02d (month dt)"

section \<open>Backup placement (\<open>main.py\<close>, \<open>create_backup_hierarchy\<close>)\<close>

definition SIZE_LIMIT :: int where
  "SIZE_LIMIT = 25 * 1024 * 1024"

text \<open>
  What the operating system answers during one call for one file: the size, or nothing
  when \<open>os.path.getsize\<close> raises; the date of the \<open>ctime\<close>, or nothing when
  \<open>os.path.getctime\<close> or \<open>datetime.fromtimestamp\<close> raises; whether \<open>os.makedirs\<close> and
  \<open>shutil.copy2\<close> succeed.
\<close>

record file_io =
  getsize_result :: "int option"
  getctime_result :: "datetime option"
  makedirs_ok :: bool
  copy_ok :: bool

definition get_file_size :: "file_io \<Rightarrow> int" where
  "get_file_size io = (case getsize_result io of Some n \<Rightarrow> n | None \<Rightarrow> - 1)"

text \<open>
  \<open>file_size / (1024 * 1024)\<close> is a float: the double nearest to the quotient, a tie going
  to the double with the even mantissa. Dividing by \<open>2 ^ 20\<close> only changes the exponent, so
  that double is \<open>nearest_double file_size / 2 ^ 20\<close>, where \<open>nearest_double n\<close> is the
  integer of 53 significant bits nearest to \<open>n\<close>. \<open>ulp53 n\<close> is the distance between two
  such integers next to \<open>n\<close>: 1 below \<open>2 ^ 53 = 9007199254740992\<close>, doubling with every
  further bit.
\<close>

function ulp53 :: "int \<Rightarrow> int" where
  "ulp53 n = (if n < 9007199254740992 then 1 else 2 * ulp53 (n div 2))"
  by pat_completeness auto
termination
  by (relation "measure nat") auto

definition nearest_double :: "int \<Rightarrow> int" where
  "nearest_double n =
     (let a = \<bar>n\<bar>;
          u = ulp53 a;
          q = a div u;
          r = a mod u;
          m = (if 2 * r < u then q else if 2 * r > u then q + 1
               else if even q then q else q + 1)
      in sgn n * (m * u))"

text \<open>
  An entry of the exclusion report (\<open>info_file\<close> is its key \<open>"file"\<close>). \<open>size_mb\<close> counts
  hundredths of a megabyte: the float \<open>round(file_size / (1024 * 1024), 2)\<close> is the double
  nearest to \<open>size_mb / 100\<close>. \<open>round(x, 2)\<close> rounds the exact value of the double \<open>x\<close> to
  the nearest hundredth, a tie to the even one; \<open>round_hundredths n\<close> does so for
  \<open>x = n / 2 ^ 20\<close>.
\<close>

record excluded_info =
  info_file :: string
  size_mb :: int
  destination :: string

definition round_hundredths :: "int \<Rightarrow> int" where
  "round_hundredths n =
     (let q = (n * 100) div (1024 * 1024);
          r = (n * 100) mod (1024 * 1024)
      in if 2 * r < 1024 * 1024 then q
         else if 2 * r > 1024 * 1024 then q + 1
         else if even q then q else q + 1)"

definition round_mb :: "int \<Rightarrow> int" where
  "round_mb file_size = round_hundredths (nearest_double file_size)"

text \<open>The operations on the file system that the backup performs.\<close>

datatype fs_effect = MakeDirs string | CopyFile string string

definition lstrip_dots :: "string \<Rightarrow> string" where
  "lstrip_dots s = dropWhile (\<lambda>c. c = CHR ''.'') s"

text \<open>
  Returns the destination (or \<open>None\<close>), the exclusion list after the call and the
  directories created. Every exception inside the \<open>try\<close> ends in \<open>return None\<close>.
\<close>

definition create_backup_hierarchy ::
  "string \<Rightarrow> string \<Rightarrow> excluded_info list \<Rightarrow> file_io \<Rightarrow>
     string option \<times> excluded_info list \<times> fs_effect list" where
  "create_backup_hierarchy backup_root file_path excluded_size_files io =
     (let file_size = get_file_size io in
      if file_size > SIZE_LIMIT then
        (None,
         excluded_size_files @
           [\<lparr>info_file = file_path, size_mb = round_mb file_size,
             destination = ''Would be placed in year/month/week hierarchy''\<rparr>],
         [])
      else
        (case getctime_result io of
           None \<Rightarrow> (None, excluded_size_files, [])
         | Some file_date \<Rightarrow>
             (let year_folder = strftime_Y file_date;
                  month_folder = strftime_m file_date;
                  week_folder = ''W'' @ format_02d (get_week_number file_date);
                  file_extension = lstrip_dots (get_file_extension file_path);
                  dest_dir = path_join (path_join (path_join (path_join backup_root
                               year_folder) month_folder) week_folder) file_extension
              in if makedirs_ok io
                 then (Some (path_join dest_dir (basename file_path)),
                       excluded_size_files, [MakeDirs dest_dir])
                 else (None, excluded_size_files, []))))"

section \<open>The backup loop (\<open>main.py\<close>, \<open>main\<close>)\<close>

record backup_state =
  excluded_size_files :: "excluded_info list"
  backed_up_count :: nat
  effects :: "fs_effect list"

definition initial_state :: backup_state where
  "initial_state = \<lparr>excluded_size_files = [], backed_up_count = 0, effects = []\<rparr>"

text \<open>
  The body of \<open>for file_path in files_to_backup\<close>. \<open>if dest_path:\<close> is false for \<open>None\<close>
  and for the empty string; a failed copy is caught and the loop goes on.
\<close>

definition backup_step :: "string \<Rightarrow> string \<times> file_io \<Rightarrow> backup_state \<Rightarrow> backup_state" where
  "backup_step backup_root item st =
     (case item of (file_path, io) \<Rightarrow>
      (case create_backup_hierarchy backup_root file_path (excluded_size_files st) io of
         (dest_path, excluded', made) \<Rightarrow>
           (let st1 = st\<lparr>excluded_size_files := excluded', effects := effects st @ made\<rparr>
            in case dest_path of
                 None \<Rightarrow> st1
               | Some dest \<Rightarrow>
                   if dest \<noteq> [] \<and> copy_ok io
                   then st1\<lparr>effects := effects st1 @ [CopyFile file_path dest],
                            backed_up_count := backed_up_count st1 + 1\<rparr>
                   else st1)))"

fun backup_loop :: "string \<Rightarrow> (string \<times> file_io) list \<Rightarrow> backup_state \<Rightarrow> backup_state" where
  "backup_loop backup_root [] st = st"
| "backup_loop backup_root (item # rest) st =
     backup_loop backup_root rest (backup_step backup_root item st)"

text \<open>Where a file was copied to, and the report entries about a file.\<close>

fun copies_of :: "string \<Rightarrow> fs_effect list \<Rightarrow> string list" where
  "copies_of f [] = []"
| "copies_of f (MakeDirs d # es) = copies_of f es"
| "copies_of f (CopyFile src dst # es) = (if src = f then dst # copies_of f es else copies_of f es)"

definition reports_of :: "string \<Rightarrow> excluded_info list \<Rightarrow> excluded_info list" where
  "reports_of f entries = filter (\<lambda>e. info_file e = f) entries"

text \<open>
  What one iteration on its own adds to the report and to the file system: the iteration
  run from the initial state.
\<close>

definition step_reports :: "string \<Rightarrow> string \<times> file_io \<Rightarrow> excluded_info list" where
  "step_reports backup_root item = excluded_size_files (backup_step backup_root item initial_state)"

definition step_effects :: "string \<Rightarrow> string \<times> file_io \<Rightarrow> fs_effect list" where
  "step_effects backup_root item = effects (backup_step backup_root item initial_state)"

text \<open>
  No I/O error for a file: its size is read, and when the file is within the limit its
  date is read, the directories are made and the copy succeeds.
\<close>

definition io_succeeds :: "file_io \<Rightarrow> bool" where
  "io_succeeds io =
     (case getsize_result io of
        None \<Rightarrow> False
      | Some n \<Rightarrow>
          n > SIZE_LIMIT \<or> (getctime_result io \<noteq> None \<and> makedirs_ok io \<and> copy_ok io))"

section \<open>The exclusion log (\<open>main.py\<close>, \<open>log_excluded_files\<close>)\<close>

text \<open>
  How Python prints the float \<open>size_mb\<close>: the shortest decimal that reads back as the same
  double, which for a number of hundredths is the integer part, a point and one or two
  decimals (\<open>30.0\<close>, \<open>25.5\<close>, \<open>25.12\<close>).
\<close>

definition repr_mb :: "int \<Rightarrow> string" where
  "repr_mb h =
     (let a = nat \<bar>h\<bar>;
          frac = a mod 100;
          digits = dec (a div 100) @ ''.'' @
            (if frac mod 10 = 0 then [digit_char (frac div 10)] else two_digits frac)
      in if h < 0 then ''-'' @ digits else digits)"

definition banner :: string where
  "banner = replicate 80 (CHR ''='')"

text \<open>
  The strings passed to \<open>f.write\<close> by the loop over \<open>enumerate(excluded_files, 1)\<close>, in
  order; \<open>idx\<close> is the running index.
\<close>

fun write_entries :: "nat \<Rightarrow> excluded_info list \<Rightarrow> string list" where
  "write_entries idx [] = []"
| "write_entries idx (file_info # rest) =
     [dec idx @ ''. File: '' @ info_file file_info @ ''\<newline>'',
      ''   Size: '' @ repr_mb (size_mb file_info) @ '' MB\<newline>'',
      ''   Would be located: Backup folder structure would apply\<newline>'',
      ''\<newline>'']
     @ write_entries (Suc idx) rest"

text \<open>All the strings written, in order; \<open>now\<close> is the formatted current time.\<close>

definition log_writes :: "excluded_info list \<Rightarrow> string \<Rightarrow> string list" where
  "log_writes excluded_files now =
     [banner @ ''\<newline>'',
      ''BACKUP EXCLUDED FILES LOG - '' @ now @ ''\<newline>'',
      banner @ ''\<newline>\<newline>'',
      ''The following files were EXCLUDED from backup due to exceeding 25MB size limit:\<newline>\<newline>'']
     @ (if excluded_files = [] then [''No files were excluded.\<newline>'']
        else [''Total excluded files: '' @ dec (length excluded_files) @ ''\<newline>\<newline>'']
             @ write_entries 1 excluded_files)
     @ [banner @ ''\<newline>'',
        ''To fix this, consider using git-lfs (Large File Storage) or exclude these files in config.\<newline>'']"

text \<open>
  The log file after the call, from the file before it (\<open>None\<close>: no file). Opening with
  mode \<open>w\<close> empties the file; when the file cannot be opened the exception is caught and
  the file stays as it was.
\<close>

datatype log_io = LogOpens | LogOpenFails

definition log_excluded_files ::
  "excluded_info list \<Rightarrow> string \<Rightarrow> log_io \<Rightarrow> string option \<Rightarrow> string option" where
  "log_excluded_files excluded_files now io old =
     (case io of
        LogOpenFails \<Rightarrow> old
      | LogOpens \<Rightarrow> Some (concat (log_writes excluded_files now)))"




section \<open>The git publisher (\<open>github_uploader.py\<close>)\<close>

text \<open>
  What a \<open>subprocess.run\<close> call ends in: the process exits with a return code, its
  standard output as text and a flag telling whether its standard error decodes as text;
  or the call raises another exception (the program is not found, for instance).
\<close>

datatype proc_result = Exit int string bool | OsError

text \<open>How a function ends: it returns a truth value, or an exception leaves it.\<close>

datatype outcome = Returned bool | Raised


text \<open>
  The environment of an upload: which paths exist, whether the platform is Windows,
  whether \<open>os.chmod\<close> and \<open>os.makedirs\<close> succeed, what git answers to a command line run
  in a directory, and the result of \<open>COMMIT_MESSAGE.format(date=...)\<close> (\<open>None\<close> when
  \<open>str.format\<close> raises on the template).
\<close>

record world =
  path_exists :: "string \<Rightarrow> bool"
  is_nt :: bool
  chmod_ok :: bool
  repo_makedirs_ok :: bool
  git :: "string \<Rightarrow> string list \<Rightarrow> proc_result"
  format_message :: "string \<Rightarrow> string option"

text \<open>
  \<open>subprocess.run(..., check=True)\<close> inside the \<open>try\<close> of a publisher function: \<open>None\<close>
  when the call passes; otherwise how the function ends. A non-zero exit raises
  \<open>CalledProcessError\<close>, whose handler decodes the standard error and returns \<open>False\<close>;
  when the decoding raises, that exception leaves the function.
\<close>

definition check_call :: "proc_result \<Rightarrow> outcome option" where
  "check_call r =
     (case r of
        OsError \<Rightarrow> Some (Returned False)
      | Exit returncode out decodes \<Rightarrow>
          if returncode = 0 then None
          else if decodes then Some (Returned False) else Some Raised)"

type_synonym config = "string \<rightharpoonup> string option"






text \<open>Returns how the function ends and the git command lines it has run, in order.\<close>

definition commit_and_push :: "world \<Rightarrow> string \<Rightarrow> string \<Rightarrow> outcome \<times> string list list" where
  "commit_and_push w repo_path commit_message =
     (let email = [''git'', ''config'', ''user.email'', ''backup@automated.local''];
          name = [''git'', ''config'', ''user.name'', ''Backup Bot''];
          add = [''git'', ''add'', ''.''];
          status = [''git'', ''status'', ''--porcelain''];
          commit = [''git'', ''commit'', ''-m'', commit_message];
          push = [''git'', ''push'', ''-u'', ''origin'', ''main'']
      in case check_call (git w repo_path email) of
           Some r \<Rightarrow> (r, [email])
         | None \<Rightarrow>
      (case check_call (git w repo_path name) of
           Some r \<Rightarrow> (r, [email, name])
         | None \<Rightarrow>
      (case check_call (git w repo_path add) of
           Some r \<Rightarrow> (r, [email, name, add])
         | None \<Rightarrow>
      (case git w repo_path status of
           OsError \<Rightarrow> (Returned False, [email, name, add, status])
         | Exit returncode out decodes \<Rightarrow>
             if strip out = [] then (Returned True, [email, name, add, status])
             else
      (case check_call (git w repo_path commit) of
           Some r \<Rightarrow> (r, [email, name, add, status, commit])
         | None \<Rightarrow>
      (case check_call (git w repo_path push) of
           Some r \<Rightarrow> (r, [email, name, add, status, commit, push])
         | None \<Rightarrow> (Returned True, [email, name, add, status, commit, push])))))))"





definition example_world :: world where
  "example_world =
     \<lparr>path_exists = (\<lambda>p. p = ''/home/me/.ssh/id_rsa''), is_nt = False, chmod_ok = True,
      repo_makedirs_ok = True, git = (\<lambda>cwd argv. Exit 0 [] True),
      format_message = (\<lambda>template. Some template)\<rparr>"

section \<open>A small source tree\<close>



text \<open>A small file created on 5 January 2024, in ISO week 1 of that year.\<close>

definition notes_date :: datetime where
  "notes_date = \<lparr>year = 2024, month = 1, day = 5\<rparr>"

definition notes_io :: file_io where
  "notes_io = \<lparr>getsize_result = Some 10240, getctime_result = Some notes_date,
                makedirs_ok = True, copy_ok = True\<rparr>"



definition denied_io :: file_io where
  "denied_io = \<lparr>getsize_result = Some 10240, getctime_result = Some notes_date,
                 makedirs_ok = False, copy_ok = True\<rparr>"

text \<open>
  A report of 30 MiB, a text file of exactly the size limit, and a file whose size cannot
  be read.
\<close>

definition report_io :: file_io where
  "report_io = \<lparr>getsize_result = Some 31457280,
                 getctime_result = Some \<lparr>year = 2024, month = 3, day = 12\<rparr>,
                 makedirs_ok = True, copy_ok = True\<rparr>"

definition limit_io :: file_io where
  "limit_io = \<lparr>getsize_result = Some 26214400, getctime_result = Some notes_date,
                makedirs_ok = True, copy_ok = True\<rparr>"

text \<open>
  An archive of \<open>2 ^ 54 + 131073\<close> bytes: the float quotient by \<open>2 ^ 20\<close> is
  \<open>17179869184.125\<close>, which \<open>round\<close> takes to \<open>17179869184.12\<close>.
\<close>

definition archive_io :: file_io where
  "archive_io = \<lparr>getsize_result = Some 18014398509613057,
                  getctime_result = Some \<lparr>year = 2024, month = 3, day = 12\<rparr>,
                  makedirs_ok = True, copy_ok = True\<rparr>"

definition gone_io :: file_io where
  "gone_io = \<lparr>getsize_result = None, getctime_result = None,
               makedirs_ok = True, copy_ok = True\<rparr>"

definition example_run :: "(string \<times> file_io) list" where
  "example_run =
     [(''docs/notes.md'', notes_io), (''docs/Report.PDF'', report_io), (''docs/gone.txt'', gone_io)]"

section \<open>Properties\<close>



lemma excluded_scan_iff: "excluded_scan l es \<longleftrightarrow> (\<exists>e \<in> set es. str_in e l)"
  by (induction es) auto

lemma is_path_excluded_iff:
  "is_path_excluded fp es \<longleftrightarrow> (\<exists>e \<in> set es. str_in e (lower fp))"
  by (simp add: is_path_excluded_def excluded_scan_iff)

text \<open>
  C9. Exclusion matching has the empty pattern set as identity and is monotone in the
  pattern set: with no pattern nothing is excluded, and a path excluded under the patterns
  \<open>S\<close> stays excluded under every \<open>T\<close> that contains them.
\<close>

theorem is_path_excluded_monotone:
  "\<not> is_path_excluded file_path [] \<and>
   (set S \<subseteq> set T \<longrightarrow> is_path_excluded file_path S \<longrightarrow> is_path_excluded file_path T)"
  by (auto simp: is_path_excluded_iff)

theorem is_path_excluded_monotone_witness:
  "set [''temp''] \<subseteq> set [''node_modules'', ''temp'']
   \<and> is_path_excluded ''C:/Users/Temp/a.md'' [''temp'']
   \<and> is_path_excluded ''C:/Users/Temp/a.md'' [''node_modules'', ''temp'']"
  using is_path_excluded_monotone [of "''C:/Users/Temp/a.md''" "[''temp'']" "[''node_modules'', ''temp'']"]
  by code_simp







lemma valid_name_not_abs: "valid_name n \<Longrightarrow> \<not> startswith n ''/''"
  by (cases n) (auto simp: valid_name_def)


lemma walk_paths_simps:
  "walk_paths [] = []"
  "walk_paths ((r, fs) # w) = map (path_join r) fs @ walk_paths w"
  "walk_paths (u @ w) = walk_paths u @ walk_paths w"
  by (simp_all add: walk_paths_def)









subsection \<open>Discovered paths are pairwise different\<close>

lemma path_join_name: "valid_name n \<Longrightarrow> path_join r n = dir_prefix r @ n"
  by (auto simp: path_join_def dir_prefix_def dest: valid_name_not_abs)

lemma dir_prefix_join:
  assumes "valid_name d"
  shows "dir_prefix (path_join r d) = dir_prefix r @ d @ ''/''"
proof -
  from assms have d0: "d \<noteq> []" "CHR ''/'' \<notin> set d"
    by (simp_all add: valid_name_def)
  then have d: "d \<noteq> []" "last d \<noteq> CHR ''/''" by (metis last_in_set)+
  have "path_join r d = dir_prefix r @ d" using assms by (rule path_join_name)
  with d show ?thesis by (simp add: dir_prefix_def)
qed

lemma first_component:
  assumes "a @ CHR ''/'' # x = b @ CHR ''/'' # y" "CHR ''/'' \<notin> set a" "CHR ''/'' \<notin> set b"
  shows "a = b"
proof -
  have tw: "takeWhile (\<lambda>c. c \<noteq> CHR ''/'') (u @ CHR ''/'' # v) = u"
    if "CHR ''/'' \<notin> set u" for u v
    using that by (induction u) auto
  from assms(1) have "takeWhile (\<lambda>c. c \<noteq> CHR ''/'') (a @ CHR ''/'' # x) =
                      takeWhile (\<lambda>c. c \<noteq> CHR ''/'') (b @ CHR ''/'' # y)"
    by simp
  then show ?thesis
    unfolding tw [OF assms(2)] tw [OF assms(3)] .
qed

lemma walk_paths_under:
  "names_ok t \<Longrightarrow> p \<in> set (walk_paths (os_walk r t ex)) \<Longrightarrow> \<exists>x. p = dir_prefix r @ x"
  "names_ok_dirs ds \<Longrightarrow> p \<in> set (walk_paths (os_walk_dirs r ds ex)) \<Longrightarrow>
     \<exists>d x. d \<in> fst ` set ds \<and> p = dir_prefix r @ d @ CHR ''/'' # x"
proof (induction r t ex and r ds ex rule: os_walk_os_walk_dirs.induct)
  case (1 root ex)
  then show ?case by (simp add: walk_paths_simps)
next
  case (2 root dirs filenames ex)
  from 2(3) consider "p \<in> path_join root ` set filenames"
    | "p \<in> set (walk_paths (os_walk_dirs root dirs ex))"
    by (auto simp: walk_paths_simps)
  then show ?case
  proof cases
    case 1
    then obtain f where f: "f \<in> set filenames" "p = path_join root f" by blast
    with 2(2) have "valid_name f" by (simp add: list_all_iff)
    with f(2) show ?thesis by (simp add: path_join_name)
  next
    case 2
    with "2.IH" "2.prems"(1) obtain d x where "p = dir_prefix root @ d @ CHR ''/'' # x"
      by auto
    then show ?thesis by blast
  qed
next
  case (3 root ex)
  then show ?case by (simp add: walk_paths_simps)
next
  case (4 root d t rest ex)
  from "4.prems"(1) have ok: "valid_name d" "names_ok t" "names_ok_dirs rest" by simp_all
  from "4.prems"(2) consider
      (here) "\<not> is_path_excluded (path_join root d) ex"
        "p \<in> set (walk_paths (os_walk (path_join root d) t ex))"
    | (later) "p \<in> set (walk_paths (os_walk_dirs root rest ex))"
    by (auto simp: walk_paths_simps split: if_splits)
  then show ?case
  proof cases
    case here
    with "4.IH"(2) ok(2) obtain x where "p = dir_prefix (path_join root d) @ x" by blast
    then have "p = dir_prefix root @ d @ CHR ''/'' # x"
      using dir_prefix_join [OF ok(1)] by simp
    then show ?thesis by auto
  next
    case later
    have "\<exists>d x. d \<in> fst ` set rest \<and> p = dir_prefix root @ d @ CHR ''/'' # x"
    proof (cases "is_path_excluded (path_join root d) ex")
      case True
      with "4.IH"(1) ok(3) later show ?thesis by blast
    next
      case False
      with "4.IH"(3) ok(3) later show ?thesis by blast
    qed
    then show ?thesis by auto
  qed
qed


lemma distinct_joined_names:
  assumes "distinct fs" "list_all valid_name fs"
  shows "distinct (map (path_join r) fs)"
proof -
  have eq: "map (path_join r) fs = map ((@) (dir_prefix r)) fs"
    using assms(2) by (intro map_cong refl) (simp add: list_all_iff path_join_name)
  show ?thesis
    unfolding eq using assms(1) by (simp add: distinct_map inj_on_def)
qed

lemma names_ok_dirs_valid:
  "names_ok_dirs ds \<Longrightarrow> n \<in> fst ` set ds \<Longrightarrow> valid_name n"
proof (induction ds)
  case Nil
  then show ?case by simp
next
  case (Cons a ds)
  obtain d t where a: "a = (d, t)" by (cases a)
  from Cons.prems(1) have v: "valid_name d" "names_ok_dirs ds" unfolding a by simp_all
  from Cons.prems(2) have "n = d \<or> n \<in> fst ` set ds" unfolding a by simp
  then show ?case using v Cons.IH by blast
qed

lemma file_not_under_subdirs:
  assumes "names_ok_dirs dirs" "valid_name f"
  shows "path_join root f \<notin> set (walk_paths (os_walk_dirs root dirs ex))"
proof
  assume "path_join root f \<in> set (walk_paths (os_walk_dirs root dirs ex))"
  with walk_paths_under(2) [OF assms(1)] obtain d x where
    e: "path_join root f = dir_prefix root @ d @ CHR ''/'' # x" by blast
  from e have "dir_prefix root @ f = dir_prefix root @ d @ CHR ''/'' # x"
    unfolding path_join_name [OF assms(2)] .
  then have "f = d @ CHR ''/'' # x" by (simp only: same_append_eq)
  then have "CHR ''/'' \<in> set f" by simp
  with assms(2) show False by (simp add: valid_name_def)
qed

lemma subdirs_apart:
  assumes "valid_name d" "names_ok t" "names_ok_dirs rest" "d \<notin> fst ` set rest"
    and p: "p \<in> set (walk_paths (os_walk (path_join root d) t ex))"
  shows "p \<notin> set (walk_paths (os_walk_dirs root rest ex))"
proof
  assume a: "p \<in> set (walk_paths (os_walk_dirs root rest ex))"
  have "\<exists>d' y. d' \<in> fst ` set rest \<and> p = dir_prefix root @ d' @ CHR ''/'' # y"
    by (rule walk_paths_under(2) [OF assms(3) a])
  then obtain d' y where
    d': "d' \<in> fst ` set rest" "p = dir_prefix root @ d' @ CHR ''/'' # y"
    by (elim exE conjE) (rule that)
  from walk_paths_under(1) [OF assms(2) p] obtain x where
    x: "p = dir_prefix (path_join root d) @ x" by blast
  have "dir_prefix (path_join root d) @ x = p" using x by (rule sym)
  also have "p = dir_prefix root @ d' @ CHR ''/'' # y" by (rule d'(2))
  finally have e1: "dir_prefix (path_join root d) @ x = dir_prefix root @ d' @ CHR ''/'' # y" .
  have e2: "dir_prefix (path_join root d) = dir_prefix root @ d @ ''/''"
    by (rule dir_prefix_join [OF assms(1)])
  from e1 have "(dir_prefix root @ d @ ''/'') @ x = dir_prefix root @ d' @ CHR ''/'' # y"
    unfolding e2 .
  then have eq: "d @ CHR ''/'' # x = d' @ CHR ''/'' # y" by simp
  from assms(1) have nd: "CHR ''/'' \<notin> set d" by (simp add: valid_name_def)
  from names_ok_dirs_valid [OF assms(3) d'(1)] have nd': "CHR ''/'' \<notin> set d'"
    by (simp add: valid_name_def)
  from eq nd nd' have "d = d'" by (rule first_component)
  with d'(1) assms(4) show False by blast
qed


lemma walk_paths_distinct:
  "names_ok t \<Longrightarrow> unique_names t \<Longrightarrow> distinct (walk_paths (os_walk r t ex))"
  "names_ok_dirs ds \<Longrightarrow> unique_names_dirs ds \<Longrightarrow> distinct (map fst ds) \<Longrightarrow>
     distinct (walk_paths (os_walk_dirs r ds ex))"
proof (induction r t ex and r ds ex rule: os_walk_os_walk_dirs.induct)
  case (1 root ex)
  show ?case by (simp add: walk_paths_simps)
next
  case (2 root dirs filenames ex)
  from "2.prems"(1) have ok1: "names_ok_dirs dirs" "list_all valid_name filenames"
    by (simp_all only: names_ok.simps)
  from "2.prems"(2) have ok2: "distinct (map fst dirs)" "distinct filenames"
    "unique_names_dirs dirs"
    by (simp_all only: unique_names.simps)
  have a: "distinct (map (path_join root) filenames)"
    using ok2(2) ok1(2) by (rule distinct_joined_names)
  have b: "distinct (walk_paths (os_walk_dirs root dirs ex))"
    by (rule "2.IH" [OF ok1(1) ok2(3) ok2(1)])
  have "path_join root f \<notin> set (walk_paths (os_walk_dirs root dirs ex))"
    if "f \<in> set filenames" for f
  proof -
    from that ok1(2) have "valid_name f" by (simp add: list_all_iff)
    with ok1(1) show ?thesis by (rule file_not_under_subdirs)
  qed
  then have d: "set (map (path_join root) filenames)
                  \<inter> set (walk_paths (os_walk_dirs root dirs ex)) = {}"
    unfolding set_map by blast
  have "walk_paths (os_walk root (Dir dirs filenames) ex) =
          map (path_join root) filenames @ walk_paths (os_walk_dirs root dirs ex)"
    by (simp add: walk_paths_simps)
  moreover have "distinct (map (path_join root) filenames
                   @ walk_paths (os_walk_dirs root dirs ex))"
    unfolding distinct_append using a b d by (intro conjI)
  ultimately show ?case by (simp only:)
next
  case (3 root ex)
  show ?case by (simp add: walk_paths_simps)
next
  case (4 root d t rest ex)
  from "4.prems"(1) have ok1: "valid_name d" "names_ok t" "names_ok_dirs rest"
    by (simp_all only: names_ok_dirs.simps)
  from "4.prems"(2) have ok2: "unique_names t" "unique_names_dirs rest"
    by (simp_all only: unique_names_dirs.simps)
  from "4.prems"(3) have "d \<notin> set (map fst rest) \<and> distinct (map fst rest)"
    by (simp only: list.map distinct.simps fst_conv simp_thms)
  then have ok3: "d \<notin> fst ` set rest" "distinct (map fst rest)"
    unfolding set_map by (rule conjunct1, rule conjunct2)
  show ?case
  proof (cases "is_path_excluded (path_join root d) ex")
    case True
    have "distinct (walk_paths (os_walk_dirs root rest ex))"
      by (rule "4.IH"(1) [OF True ok1(3) ok2(2) ok3(2)])
    moreover have "os_walk_dirs root ((d, t) # rest) ex = os_walk_dirs root rest ex"
      using True by simp
    ultimately show ?thesis by (simp only:)
  next
    case False
    have a: "distinct (walk_paths (os_walk (path_join root d) t ex))"
      by (rule "4.IH"(2) [OF False ok1(2) ok2(1)])
    have b: "distinct (walk_paths (os_walk_dirs root rest ex))"
      by (rule "4.IH"(3) [OF False ok1(3) ok2(2) ok3(2)])
    have "p \<notin> set (walk_paths (os_walk_dirs root rest ex))"
      if "p \<in> set (walk_paths (os_walk (path_join root d) t ex))" for p
      using ok1 ok3(1) that by (rule subdirs_apart)
    then have e: "set (walk_paths (os_walk (path_join root d) t ex))
                    \<inter> set (walk_paths (os_walk_dirs root rest ex)) = {}"
      by blast
    have "walk_paths (os_walk_dirs root ((d, t) # rest) ex) =
            walk_paths (os_walk (path_join root d) t ex) @ walk_paths (os_walk_dirs root rest ex)"
      using False by (simp add: walk_paths_simps)
    moreover have "distinct (walk_paths (os_walk (path_join root d) t ex)
                     @ walk_paths (os_walk_dirs root rest ex))"
      unfolding distinct_append using a b e by (intro conjI)
    ultimately show ?thesis by (simp only:)
  qed
qed

lemma keep_files_filter:
  "keep_files r fs ex =
     filter (\<lambda>p. \<not> is_path_excluded p ex \<and> is_supported_file p) (map (path_join r) fs)"
  by (induction fs) (simp_all add: Let_def)

lemma find_all_files_filter:
  "find_all_files directory tree ex =
     filter (\<lambda>p. \<not> is_path_excluded p ex \<and> is_supported_file p)
       (walk_paths (os_walk directory tree ex))"
proof -
  have "concat (map (\<lambda>(root, filenames). keep_files root filenames ex) w) =
          filter (\<lambda>p. \<not> is_path_excluded p ex \<and> is_supported_file p) (walk_paths w)" for w
    by (induction w) (auto simp: walk_paths_simps keep_files_filter)
  then show ?thesis by (simp add: find_all_files_def)
qed

text \<open>
  The discovered files are pairwise different when the tree is one of a file system: the
  run of the backup loop over them visits every path once.
\<close>

lemma find_all_files_distinct:
  assumes "names_ok tree" "unique_names tree"
  shows "distinct (find_all_files directory tree ex)"
  unfolding find_all_files_filter
  using walk_paths_distinct(1) [OF assms] by (rule distinct_filter)

subsection \<open>The calendar\<close>























subsection \<open>Paths and extensions\<close>

lemma lower_char_below_letters:
  assumes "(of_char d :: nat) < 65"
  shows "lower_char c = d \<longleftrightarrow> c = d"
proof (cases "65 \<le> (of_char c :: nat) \<and> (of_char c :: nat) \<le> 90")
  case True
  then have "(of_char (lower_char c) :: nat) = of_char c + 32"
    by (simp add: lower_char_def Let_def)
  with True assms have "lower_char c \<noteq> d" by auto
  moreover from True assms have "c \<noteq> d" by auto
  ultimately show ?thesis by simp
next
  case False
  then show ?thesis by (auto simp: lower_char_def Let_def)
qed

lemma lower_char_dot [simp]: "lower_char c = CHR ''.'' \<longleftrightarrow> c = CHR ''.''"
  by (rule lower_char_below_letters) simp




lemma lower_eq_Nil [simp]: "lower s = [] \<longleftrightarrow> s = []"
  by (simp add: lower_def)






subsection \<open>Destinations\<close>

declare dec.simps [simp del]















text \<open>
  The destination is not returned for every file within the size limit: when
  \<open>os.makedirs\<close> fails the function returns \<open>None\<close>, and a file without extension is placed
  directly in the week's folder.
\<close>

theorem create_backup_hierarchy_counterexample:
  "getsize_result denied_io = Some 10240 \<and> (10240 :: int) \<le> 26214400
   \<and> fst (create_backup_hierarchy ''backup_root'' ''docs/notes.md'' [] denied_io) = None
   \<and> getsize_result notes_io = Some 10240
   \<and> fst (create_backup_hierarchy ''backup_root'' ''docs/README'' [] notes_io) =
        Some ''backup_root/2024/01/W01/README''"
  by code_simp

subsection \<open>Placement and the backup loop\<close>

declare ulp53.simps [simp del]

lemma ulp53_small: "n < 9007199254740992 \<Longrightarrow> ulp53 n = 1"
  by (subst ulp53.simps) simp

lemma ulp53_le: "9007199254740992 \<le> n \<Longrightarrow> 4503599627370496 * ulp53 n \<le> n"
proof (induction n rule: ulp53.induct)
  case (1 n)
  have u: "ulp53 n = 2 * ulp53 (n div 2)" using "1.prems" by (subst ulp53.simps) simp
  show ?case
  proof (cases "n div 2 < 9007199254740992")
    case True
    then have "ulp53 (n div 2) = 1" by (rule ulp53_small)
    with u "1.prems" show ?thesis by simp
  next
    case False
    with "1.IH" "1.prems" have "4503599627370496 * ulp53 (n div 2) \<le> n div 2" by simp
    moreover have "2 * (n div 2) \<le> n" by simp
    ultimately show ?thesis unfolding u by linarith
  qed
qed

lemma ulp53_pos: "0 < ulp53 n"
proof (induction n rule: ulp53.induct)
  case (1 n)
  show ?case by (subst ulp53.simps) (use 1 in auto)
qed

lemma nearest_double_close:
  assumes "0 \<le> n"
  shows "0 \<le> nearest_double n" and "2 * \<bar>nearest_double n - n\<bar> \<le> ulp53 n"
proof -
  define u where "u = ulp53 n"
  define q where "q = n div u"
  define r where "r = n mod u"
  define m where "m = (if 2 * r < u then q else if 2 * r > u then q + 1
                       else if even q then q else q + 1)"
  have u: "0 < u" unfolding u_def by (rule ulp53_pos)
  have n: "n = q * u + r" unfolding q_def r_def by simp
  have r: "0 \<le> r" "r < u" unfolding r_def using u by simp_all
  have q: "0 \<le> q" unfolding q_def using assms u by (simp add: pos_imp_zdiv_nonneg_iff)
  have nd: "nearest_double n = sgn n * (m * u)"
    using assms unfolding nearest_double_def Let_def m_def q_def r_def u_def by simp
  have mq: "m = q \<or> m = q + 1" unfolding m_def by simp
  have m0: "0 \<le> m" using mq q by auto
  have mu: "0 \<le> m * u" using m0 u by simp
  have qu: "(q + 1) * u = q * u + u" by (simp add: algebra_simps)
  show "0 \<le> nearest_double n"
  proof (cases "n = 0")
    case True
    show ?thesis unfolding nd using True by simp
  next
    case False
    with assms have "sgn n = 1" by simp
    with mu show ?thesis unfolding nd by simp
  qed
  show "2 * \<bar>nearest_double n - n\<bar> \<le> ulp53 n"
  proof (cases "n = 0")
    case True
    have "nearest_double n - n = 0" unfolding nd using True by simp
    then show ?thesis using ulp53_pos [of n] by simp
  next
    case False
    with assms have s: "sgn n = 1" by simp
    have "2 * \<bar>m * u - n\<bar> \<le> u"
    proof (cases "2 * r < u")
      case True
      then have "m = q" by (simp add: m_def)
      with n r True show ?thesis by simp
    next
      case nlt: False
      show ?thesis
      proof (cases "2 * r > u")
        case True
        with nlt have "m = q + 1" by (simp add: m_def)
        with n r True qu show ?thesis by simp
      next
        case False
        with nlt have e: "2 * r = u" by simp
        from mq show ?thesis
        proof
          assume "m = q"
          with n r e show ?thesis by simp
        next
          assume "m = q + 1"
          with n r e qu show ?thesis by simp
        qed
      qed
    qed
    then show ?thesis unfolding nd s u_def by simp
  qed
qed

lemma nearest_double_exact:
  assumes "0 \<le> n" "n < 9007199254740992"
  shows "nearest_double n = n"
proof -
  from nearest_double_close(2) [OF assms(1)] ulp53_small [OF assms(2)]
  have "2 * \<bar>nearest_double n - n\<bar> \<le> 1" by simp
  then have "nearest_double n - n = 0" by (auto simp: abs_if split: if_splits)
  then show ?thesis by simp
qed

lemma nearest_double_relative:
  assumes "0 \<le> n"
  shows "9007199254740992 * \<bar>nearest_double n - n\<bar> \<le> n"
proof (cases "n < 9007199254740992")
  case True
  with assms show ?thesis by (simp add: nearest_double_exact)
next
  case False
  then have "4503599627370496 * ulp53 n \<le> n" by (simp add: ulp53_le)
  with nearest_double_close(2) [OF assms] show ?thesis by linarith
qed

lemma nearest_double_oversized:
  assumes "n > SIZE_LIMIT"
  shows "nearest_double n > SIZE_LIMIT"
proof -
  from assms have n: "26214400 < n" by (simp add: SIZE_LIMIT_def)
  then have "9007199254740992 * \<bar>nearest_double n - n\<bar> \<le> n"
    by (intro nearest_double_relative) simp
  moreover have "9007199254740992 * (n - nearest_double n)
                   \<le> 9007199254740992 * \<bar>nearest_double n - n\<bar>"
    by (rule mult_left_mono) simp_all
  ultimately have "9007199254740992 * (n - nearest_double n) \<le> n" by (rule order_trans [rotated])
  then have k: "9007199254740992 * (n - nearest_double n) \<le> n" .
  have "26214400 < nearest_double n"
  proof (rule ccontr)
    assume "\<not> 26214400 < nearest_double n"
    then have d: "nearest_double n \<le> 26214400" by simp
    define e where "e = n - nearest_double n"
    from n d have e: "1 \<le> e" unfolding e_def by linarith
    from d have "n \<le> e + 26214400" unfolding e_def by linarith
    with k have "9007199254740992 * e \<le> e + 26214400" unfolding e_def by linarith
    with e show False by linarith
  qed
  then show ?thesis by (simp add: SIZE_LIMIT_def)
qed

lemma round_hundredths_nearest:
  "2 * \<bar>100 * n - 1048576 * round_hundredths n\<bar> \<le> 1048576"
proof -
  define q where "q = (n * 100) div (1024 * 1024)"
  define r where "r = (n * 100) mod (1024 * 1024)"
  have qr: "100 * n = 1048576 * q + r"
    unfolding q_def r_def using mult_div_mod_eq [of "1024 * 1024" "n * 100"] by simp
  have r: "0 \<le> r" "r < 1048576" unfolding r_def by simp_all
  have "round_hundredths n = (if 2 * r < 1048576 then q else if 2 * r > 1048576 then q + 1
                       else if even q then q else q + 1)"
    unfolding round_hundredths_def Let_def q_def r_def by simp
  with qr r show ?thesis by (auto split: if_splits)
qed

lemma round_mb_nearest:
  "2 * \<bar>100 * nearest_double sz - 1048576 * round_mb sz\<bar> \<le> 1048576"
  unfolding round_mb_def by (rule round_hundredths_nearest)

lemma round_mb_oversized:
  assumes "sz > SIZE_LIMIT"
  shows "2500 \<le> round_mb sz"
proof -
  define n where "n = nearest_double sz"
  define q where "q = (n * 100) div (1024 * 1024)"
  define r where "r = (n * 100) mod (1024 * 1024)"
  have qr: "100 * n = 1048576 * q + r"
    unfolding q_def r_def using mult_div_mod_eq [of "1024 * 1024" "n * 100"] by simp
  have r: "0 \<le> r" "r < 1048576" unfolding r_def by simp_all
  from nearest_double_oversized [OF assms] have "26214400 < n"
    by (simp add: SIZE_LIMIT_def n_def)
  with qr r have "2500 \<le> q" by linarith
  moreover have "q \<le> round_mb sz"
    unfolding round_mb_def round_hundredths_def Let_def q_def n_def by simp
  ultimately show ?thesis by linarith
qed

lemma path_join_Nil_iff: "path_join a b = [] \<longleftrightarrow> a = [] \<and> b = []"
  by (cases b) (auto simp: path_join_def)

lemma destination_not_empty:
  "fst (create_backup_hierarchy root fp ex io) \<noteq> Some []"
  by (auto simp: create_backup_hierarchy_def Let_def path_join_Nil_iff split: option.splits)


lemma create_backup_hierarchy_oversized:
  assumes "get_file_size io > SIZE_LIMIT"
  shows "create_backup_hierarchy root fp ex io =
           (None,
            ex @ [\<lparr>info_file = fp, size_mb = round_mb (get_file_size io),
                   destination = ''Would be placed in year/month/week hierarchy''\<rparr>],
            [])"
  using assms by (simp add: create_backup_hierarchy_def Let_def)

lemma create_backup_hierarchy_within:
  assumes "\<not> get_file_size io > SIZE_LIMIT"
  shows "fst (snd (create_backup_hierarchy root fp ex io)) = ex"
  using assms by (simp add: create_backup_hierarchy_def Let_def split: option.splits)

lemma create_backup_hierarchy_placed:
  assumes "\<not> get_file_size io > SIZE_LIMIT" "getctime_result io \<noteq> None" "makedirs_ok io"
  shows "\<exists>dest dir. create_backup_hierarchy root fp ex io = (Some dest, ex, [MakeDirs dir])
           \<and> fst (create_backup_hierarchy root fp [] io) = Some dest"
  using assms by (auto simp: create_backup_hierarchy_def Let_def)

lemma step_reports_oversized:
  assumes "get_file_size io > SIZE_LIMIT"
  shows "step_reports root (fp, io) =
           [\<lparr>info_file = fp, size_mb = round_mb (get_file_size io),
              destination = ''Would be placed in year/month/week hierarchy''\<rparr>]"
    and "step_effects root (fp, io) = []"
  using create_backup_hierarchy_oversized [OF assms, of root fp "[]"]
  by (simp_all add: step_reports_def step_effects_def backup_step_def initial_state_def)

lemma step_reports_within:
  assumes "\<not> get_file_size io > SIZE_LIMIT"
  shows "step_reports root (fp, io) = []"
  using create_backup_hierarchy_within [OF assms, of root fp "[]"]
  by (auto simp: step_reports_def backup_step_def initial_state_def Let_def
        split: prod.splits option.splits)

lemma step_effects_placed:
  assumes "\<not> get_file_size io > SIZE_LIMIT" "getctime_result io \<noteq> None" "makedirs_ok io"
    "copy_ok io"
  shows "\<exists>dest dir. fst (create_backup_hierarchy root fp [] io) = Some dest
           \<and> step_effects root (fp, io) = [MakeDirs dir, CopyFile fp dest]"
proof -
  from create_backup_hierarchy_placed [OF assms(1,2,3), of root fp "[]"]
  obtain dest dir where d: "create_backup_hierarchy root fp [] io = (Some dest, [], [MakeDirs dir])"
    by blast
  then have "fst (create_backup_hierarchy root fp [] io) = Some dest" by simp
  with destination_not_empty [of root fp "[]" io] have "dest \<noteq> []" by auto
  with d assms(4) have "step_effects root (fp, io) = [MakeDirs dir, CopyFile fp dest]"
    by (simp add: step_effects_def backup_step_def initial_state_def)
  with d show ?thesis by auto
qed

lemma create_backup_hierarchy_frame:
  "create_backup_hierarchy root fp ex io =
     (fst (create_backup_hierarchy root fp [] io),
      ex @ fst (snd (create_backup_hierarchy root fp [] io)),
      snd (snd (create_backup_hierarchy root fp [] io)))"
  by (simp add: create_backup_hierarchy_def Let_def split: option.splits)

lemma backup_step_append:
  "excluded_size_files (backup_step root item st) =
     excluded_size_files st @ step_reports root item"
  "effects (backup_step root item st) = effects st @ step_effects root item"
proof -
  obtain fp io where item: "item = (fp, io)" by (cases item)
  obtain d r m where c: "create_backup_hierarchy root fp [] io = (d, r, m)"
    by (cases "create_backup_hierarchy root fp [] io")
  have f: "create_backup_hierarchy root fp (excluded_size_files st) io =
             (d, excluded_size_files st @ r, m)"
    using create_backup_hierarchy_frame [of root fp "excluded_size_files st" io] c by simp
  show "excluded_size_files (backup_step root item st) =
     excluded_size_files st @ step_reports root item"
    unfolding item step_reports_def backup_step_def initial_state_def
    by (simp add: c f Let_def split: option.splits)
  show "effects (backup_step root item st) = effects st @ step_effects root item"
    unfolding item step_effects_def backup_step_def initial_state_def
    by (simp add: c f Let_def split: option.splits)
qed

lemma backup_loop_append:
  "excluded_size_files (backup_loop root items st) =
     excluded_size_files st @ concat (map (step_reports root) items)"
  "effects (backup_loop root items st) = effects st @ concat (map (step_effects root) items)"
  by (induction items arbitrary: st) (simp_all add: backup_step_append)

lemma copies_of_append: "copies_of f (a @ b) = copies_of f a @ copies_of f b"
  by (induction f a rule: copies_of.induct) simp_all

lemma copies_of_concat: "copies_of f (concat xss) = concat (map (copies_of f) xss)"
  by (induction xss) (simp_all add: copies_of_append)

lemma reports_of_concat: "reports_of f (concat xss) = concat (map (reports_of f) xss)"
  by (induction xss) (simp_all add: reports_of_def)

lemma step_reports_other: "g \<noteq> fp \<Longrightarrow> reports_of g (step_reports root (fp, io)) = []"
  by (cases "get_file_size io > SIZE_LIMIT")
     (simp_all add: step_reports_oversized step_reports_within reports_of_def)

lemma step_effects_other: "g \<noteq> fp \<Longrightarrow> copies_of g (step_effects root (fp, io)) = []"
  by (auto simp: step_effects_def backup_step_def initial_state_def create_backup_hierarchy_def
        Let_def copies_of_append split: option.splits)

lemma concat_single:
  assumes "distinct (map fst items)" "(fp, io) \<in> set items"
    and "\<And>f' io'. f' \<noteq> fp \<Longrightarrow> G (f', io') = []"
  shows "concat (map G items) = G (fp, io)"
  using assms(1,2)
proof (induction items)
  case Nil
  then show ?case by simp
next
  case (Cons item rest)
  obtain f' io' where item: "item = (f', io')" by (cases item)
  show ?case
  proof (cases "item = (fp, io)")
    case True
    with Cons.prems(1) have "fp \<notin> fst ` set rest" by auto
    then have "\<forall>x \<in> set rest. G x = []"
      using assms(3) by (metis image_eqI prod.collapse)
    then have "concat (map G rest) = []" by simp
    with True show ?thesis by simp
  next
    case False
    with Cons.prems(2) have in_rest: "(fp, io) \<in> set rest" by simp
    with Cons.prems(1) item have "f' \<noteq> fp" by force
    then have "G item = []" unfolding item by (rule assms(3))
    moreover from Cons.prems(1) have "distinct (map fst rest)" by simp
    ultimately show ?thesis using Cons.IH in_rest by simp
  qed
qed


text \<open>
  C1. For a file whose size the operating system reports as \<open>sz\<close> bytes (\<open>st_size\<close>, below
  \<open>2 ^ 63 = 9223372036854775808\<close>): when \<open>sz\<close> is above 26,214,400 the file gets no
  destination, exactly one entry is appended to the report, holding the file's path and
  its size in hundredths of a megabyte, and the loop body performs no operation on the
  file system for it. The recorded size is the hundredth nearest to the float quotient
  \<open>nearest_double sz / 2 ^ 20\<close>; that float is within \<open>sz / 2 ^ 53\<close> of \<open>sz\<close>, and below
  \<open>2 ^ 53 = 9007199254740992\<close> bytes it is \<open>sz\<close> itself, so that the recorded size is the
  hundredth nearest to \<open>sz / 2 ^ 20\<close>. A file of 26,214,400 bytes or less leaves the report
  as it was.
\<close>

theorem oversized_file_excluded:
  assumes "getsize_result io = Some sz" and "sz < 9223372036854775808"
  shows "(sz > 26214400 \<longrightarrow>
            create_backup_hierarchy root fp excluded io =
              (None,
               excluded @ [\<lparr>info_file = fp, size_mb = round_mb sz,
                             destination = ''Would be placed in year/month/week hierarchy''\<rparr>],
               [])
            \<and> 2 * \<bar>100 * nearest_double sz - 1048576 * round_mb sz\<bar> \<le> 1048576
            \<and> 9007199254740992 * \<bar>nearest_double sz - sz\<bar> \<le> sz
            \<and> (sz < 9007199254740992 \<longrightarrow>
                  2 * \<bar>100 * sz - 1048576 * round_mb sz\<bar> \<le> 1048576)
            \<and> effects (backup_step root (fp, io) st) = effects st)
         \<and> (sz \<le> 26214400 \<longrightarrow>
              fst (snd (create_backup_hierarchy root fp excluded io)) = excluded)"
proof -
  from assms have sz: "get_file_size io = sz" by (simp add: get_file_size_def)
  have lim: "SIZE_LIMIT = 26214400" by (simp add: SIZE_LIMIT_def)
  have a: "sz > 26214400 \<Longrightarrow>
            create_backup_hierarchy root fp excluded io =
              (None,
               excluded @ [\<lparr>info_file = fp, size_mb = round_mb sz,
                             destination = ''Would be placed in year/month/week hierarchy''\<rparr>],
               [])"
    using create_backup_hierarchy_oversized [of io root fp excluded] by (simp add: sz lim)
  have b: "sz > 26214400 \<Longrightarrow> effects (backup_step root (fp, io) st) = effects st"
    using step_reports_oversized(2) [of io root fp] by (simp add: backup_step_append sz lim)
  have c: "sz \<le> 26214400 \<Longrightarrow>
             fst (snd (create_backup_hierarchy root fp excluded io)) = excluded"
    using create_backup_hierarchy_within [of io root fp excluded] by (simp add: sz lim)
  have d: "sz > 26214400 \<Longrightarrow> 9007199254740992 * \<bar>nearest_double sz - sz\<bar> \<le> sz"
    by (rule nearest_double_relative) simp
  have e: "sz > 26214400 \<Longrightarrow> sz < 9007199254740992 \<Longrightarrow>
             2 * \<bar>100 * sz - 1048576 * round_mb sz\<bar> \<le> 1048576"
    using round_mb_nearest [of sz] by (simp add: nearest_double_exact)
  from a b c d e round_mb_nearest [of sz] show ?thesis by blast
qed

theorem oversized_file_excluded_witness:
  "getsize_result report_io = Some 31457280 \<and> (31457280 :: int) < 9223372036854775808
   \<and> (31457280 :: int) > 26214400
   \<and> create_backup_hierarchy ''backup_root'' ''docs/Report.PDF'' [] report_io =
        (None,
         [\<lparr>info_file = ''docs/Report.PDF'', size_mb = 3000,
            destination = ''Would be placed in year/month/week hierarchy''\<rparr>],
         [])
   \<and> effects (backup_step ''backup_root'' (''docs/Report.PDF'', report_io) initial_state) = []
   \<and> getsize_result limit_io = Some 26214400 \<and> (26214400 :: int) \<le> 26214400
   \<and> fst (snd (create_backup_hierarchy ''backup_root'' ''docs/big.txt'' [] limit_io)) = []
   \<and> getsize_result archive_io = Some 18014398509613057
   \<and> (18014398509613057 :: int) < 9223372036854775808
   \<and> nearest_double 18014398509613057 = 18014398509613056
   \<and> create_backup_hierarchy ''backup_root'' ''pool/archive.json'' [] archive_io =
        (None,
         [\<lparr>info_file = ''pool/archive.json'', size_mb = 1717986918412,
            destination = ''Would be placed in year/month/week hierarchy''\<rparr>],
         [])"
proof -
  have h1: "getsize_result report_io = Some 31457280" by (simp add: report_io_def)
  have h2: "getsize_result limit_io = Some 26214400" by (simp add: limit_io_def)
  have h3: "getsize_result archive_io = Some 18014398509613057" by (simp add: archive_io_def)
  have r: "round_mb 31457280 = 3000" by code_simp
  have r3: "round_mb 18014398509613057 = 1717986918412" by code_simp
  have n3: "nearest_double 18014398509613057 = 18014398509613056" by code_simp
  have i: "effects initial_state = []" by (simp add: initial_state_def)
  from oversized_file_excluded [OF h1, of "''backup_root''" "''docs/Report.PDF''" "[]" initial_state]
    oversized_file_excluded [OF h2, of "''backup_root''" "''docs/big.txt''" "[]" initial_state]
    oversized_file_excluded [OF h3, of "''backup_root''" "''pool/archive.json''" "[]" initial_state]
    h1 h2 h3 r r3 n3 i
  show ?thesis by simp
qed

lemma step_reports_sizes: "\<forall>e \<in> set (step_reports root item). 2500 \<le> size_mb e"
proof -
  obtain fp io where item: "item = (fp, io)" by (cases item)
  show ?thesis
  proof (cases "get_file_size io > SIZE_LIMIT")
    case True
    then show ?thesis
      unfolding item by (simp add: step_reports_oversized round_mb_oversized)
  next
    case False
    then show ?thesis unfolding item by (simp add: step_reports_within)
  qed
qed

text \<open>
  C10. When the size of a file cannot be read, \<open>get_file_size\<close> is \<open>-1\<close>, which is not
  above the limit, and \<open>create_backup_hierarchy\<close> leaves the report as it was. Whatever the
  files and the answers of the operating system, no entry of the report of a run has a
  negative size.
\<close>

theorem unreadable_size_not_reported:
  "(getsize_result io = None \<longrightarrow>
      get_file_size io = - 1 \<and> \<not> get_file_size io > SIZE_LIMIT
      \<and> fst (snd (create_backup_hierarchy root fp excluded io)) = excluded)
   \<and> (\<forall>e \<in> set (excluded_size_files (backup_loop root items initial_state)). 0 \<le> size_mb e)"
proof -
  have a: "getsize_result io = None \<Longrightarrow> get_file_size io = - 1"
    by (simp add: get_file_size_def)
  then have b: "getsize_result io = None \<Longrightarrow> \<not> get_file_size io > SIZE_LIMIT"
    by (simp add: SIZE_LIMIT_def)
  then have c: "getsize_result io = None \<Longrightarrow>
                 fst (snd (create_backup_hierarchy root fp excluded io)) = excluded"
    by (rule create_backup_hierarchy_within)
  have "excluded_size_files (backup_loop root items initial_state) =
          concat (map (step_reports root) items)"
    by (simp add: backup_loop_append initial_state_def)
  then have d: "\<forall>e \<in> set (excluded_size_files (backup_loop root items initial_state)).
                  0 \<le> size_mb e"
    using step_reports_sizes by fastforce
  from a b c d show ?thesis by blast
qed

theorem unreadable_size_not_reported_witness:
  "getsize_result gone_io = None \<and> get_file_size gone_io = - 1
   \<and> fst (snd (create_backup_hierarchy ''backup_root'' ''docs/gone.txt'' [] gone_io)) = []
   \<and> map size_mb (excluded_size_files (backup_loop ''backup_root'' example_run initial_state))
        = [3000]"
proof -
  have h: "getsize_result gone_io = None" by (simp add: gone_io_def)
  have v: "map size_mb (excluded_size_files (backup_loop ''backup_root'' example_run initial_state))
        = [3000]"
    by code_simp
  from unreadable_size_not_reported [of gone_io "''backup_root''" "''docs/gone.txt''" "[]" example_run]
    h v
  show ?thesis by blast
qed


lemma io_succeeds_cases:
  assumes "io_succeeds io"
  shows "get_file_size io > SIZE_LIMIT \<or>
         (\<not> get_file_size io > SIZE_LIMIT \<and> getctime_result io \<noteq> None
            \<and> makedirs_ok io \<and> copy_ok io)"
  using assms by (auto simp: io_succeeds_def get_file_size_def split: option.splits)

text \<open>
  C3. In a run of the backup loop from the initial state over files with pairwise
  different paths, with no I/O error, every file either is copied exactly once, to the
  destination \<open>create_backup_hierarchy\<close> computes for it, and has no report entry, or is
  never copied and has exactly one report entry.
\<close>

theorem backup_loop_partition:
  assumes "distinct (map fst items)" and "\<forall>(fp, io) \<in> set items. io_succeeds io"
  shows "\<forall>(fp, io) \<in> set items.
           (\<exists>dest. fst (create_backup_hierarchy root fp [] io) = Some dest
              \<and> copies_of fp (effects (backup_loop root items initial_state)) = [dest]
              \<and> reports_of fp (excluded_size_files (backup_loop root items initial_state)) = [])
           \<or> (copies_of fp (effects (backup_loop root items initial_state)) = []
               \<and> length (reports_of fp
                    (excluded_size_files (backup_loop root items initial_state))) = 1)"
proof -
  have main: "(\<exists>dest. fst (create_backup_hierarchy root fp [] io) = Some dest
              \<and> copies_of fp (effects (backup_loop root items initial_state)) = [dest]
              \<and> reports_of fp (excluded_size_files (backup_loop root items initial_state)) = [])
           \<or> (copies_of fp (effects (backup_loop root items initial_state)) = []
               \<and> length (reports_of fp
                    (excluded_size_files (backup_loop root items initial_state))) = 1)"
    if mem: "(fp, io) \<in> set items" for fp io
  proof -
  define final where "final = backup_loop root items initial_state"
  have "effects final = concat (map (step_effects root) items)"
    unfolding final_def by (simp add: backup_loop_append initial_state_def)
  then have "copies_of fp (effects final) =
               concat (map (\<lambda>item. copies_of fp (step_effects root item)) items)"
    by (simp add: copies_of_concat comp_def)
  also have "\<dots> = copies_of fp (step_effects root (fp, io))"
    using assms(1) mem by (rule concat_single) (rule step_effects_other, simp)
  finally have copies: "copies_of fp (effects final) = copies_of fp (step_effects root (fp, io))" .
  have "excluded_size_files final = concat (map (step_reports root) items)"
    unfolding final_def by (simp add: backup_loop_append initial_state_def)
  then have "reports_of fp (excluded_size_files final) =
               concat (map (\<lambda>item. reports_of fp (step_reports root item)) items)"
    by (simp add: reports_of_concat comp_def)
  also have "\<dots> = reports_of fp (step_reports root (fp, io))"
    using assms(1) mem by (rule concat_single) (rule step_reports_other, simp)
  finally have reports:
    "reports_of fp (excluded_size_files final) = reports_of fp (step_reports root (fp, io))" .
  from assms(2) mem have "io_succeeds io" by auto
  from io_succeeds_cases [OF this]
  show ?thesis
  proof
    assume big: "get_file_size io > SIZE_LIMIT"
    have "copies_of fp (effects final) = []"
      unfolding copies by (simp add: step_reports_oversized(2) [OF big])
    moreover have "length (reports_of fp (excluded_size_files final)) = 1"
      unfolding reports by (simp add: step_reports_oversized(1) [OF big] reports_of_def)
    ultimately show ?thesis unfolding final_def by blast
  next
    assume ok: "\<not> get_file_size io > SIZE_LIMIT \<and> getctime_result io \<noteq> None
            \<and> makedirs_ok io \<and> copy_ok io"
    then obtain dest dir where d: "fst (create_backup_hierarchy root fp [] io) = Some dest"
      "step_effects root (fp, io) = [MakeDirs dir, CopyFile fp dest]"
      using step_effects_placed [of io root fp] by blast
    have "copies_of fp (effects final) = [dest]"
      unfolding copies d(2) by simp
    moreover have "reports_of fp (excluded_size_files final) = []"
      unfolding reports using ok by (simp add: step_reports_within reports_of_def)
    ultimately show ?thesis using d(1) unfolding final_def by blast
  qed
qed
  show ?thesis
  proof (intro ballI)
    fix item assume "item \<in> set items"
    then have "(fst item, snd item) \<in> set items" by simp
    from main [OF this] show "case item of (fp, io) \<Rightarrow>
           (\<exists>dest. fst (create_backup_hierarchy root fp [] io) = Some dest
              \<and> copies_of fp (effects (backup_loop root items initial_state)) = [dest]
              \<and> reports_of fp (excluded_size_files (backup_loop root items initial_state)) = [])
           \<or> (copies_of fp (effects (backup_loop root items initial_state)) = []
               \<and> length (reports_of fp
                    (excluded_size_files (backup_loop root items initial_state))) = 1)"
      by (simp add: case_prod_beta)
  qed
qed

theorem backup_loop_partition_witness:
  "distinct (map fst [(''docs/notes.md'', notes_io), (''docs/Report.PDF'', report_io)])
   \<and> io_succeeds notes_io \<and> io_succeeds report_io
   \<and> fst (create_backup_hierarchy ''backup_root'' ''docs/notes.md'' [] notes_io) =
        Some ''backup_root/2024/01/W01/md/notes.md''
   \<and> copies_of ''docs/notes.md'' (effects (backup_loop ''backup_root''
        [(''docs/notes.md'', notes_io), (''docs/Report.PDF'', report_io)] initial_state)) =
        [''backup_root/2024/01/W01/md/notes.md'']
   \<and> reports_of ''docs/notes.md'' (excluded_size_files (backup_loop ''backup_root''
        [(''docs/notes.md'', notes_io), (''docs/Report.PDF'', report_io)] initial_state)) = []
   \<and> copies_of ''docs/Report.PDF'' (effects (backup_loop ''backup_root''
        [(''docs/notes.md'', notes_io), (''docs/Report.PDF'', report_io)] initial_state)) = []
   \<and> length (reports_of ''docs/Report.PDF'' (excluded_size_files (backup_loop ''backup_root''
        [(''docs/notes.md'', notes_io), (''docs/Report.PDF'', report_io)] initial_state))) = 1"
proof -
  define items where
    "items = [(''docs/notes.md'', notes_io), (''docs/Report.PDF'', report_io)]"
  have h1: "distinct (map fst items)" unfolding items_def by simp
  have n: "io_succeeds notes_io" by code_simp
  have r: "io_succeeds report_io" by code_simp
  from n r have h2: "\<forall>(fp, io) \<in> set items. io_succeeds io" unfolding items_def by simp
  have d: "fst (create_backup_hierarchy ''backup_root'' ''docs/notes.md'' [] notes_io) =
        Some ''backup_root/2024/01/W01/md/notes.md''" by code_simp
  have e: "fst (create_backup_hierarchy ''backup_root'' ''docs/Report.PDF'' [] report_io) = None"
    by code_simp
  have c: "copies_of ''docs/notes.md'' (effects (backup_loop ''backup_root'' items initial_state))
             \<noteq> []"
    unfolding items_def by code_simp
  note t = backup_loop_partition [OF h1 h2, of "''backup_root''"]
  from t have "(\<exists>dest. fst (create_backup_hierarchy ''backup_root'' ''docs/notes.md'' [] notes_io) = Some dest
              \<and> copies_of ''docs/notes.md'' (effects (backup_loop ''backup_root'' items initial_state)) = [dest]
              \<and> reports_of ''docs/notes.md'' (excluded_size_files (backup_loop ''backup_root'' items initial_state)) = [])
           \<or> (copies_of ''docs/notes.md'' (effects (backup_loop ''backup_root'' items initial_state)) = []
               \<and> length (reports_of ''docs/notes.md''
                    (excluded_size_files (backup_loop ''backup_root'' items initial_state))) = 1)"
    unfolding items_def by simp
  with c d have n_ok:
    "copies_of ''docs/notes.md'' (effects (backup_loop ''backup_root'' items initial_state)) =
       [''backup_root/2024/01/W01/md/notes.md'']
     \<and> reports_of ''docs/notes.md'' (excluded_size_files (backup_loop ''backup_root'' items initial_state)) = []"
    by auto
  from t have "(\<exists>dest. fst (create_backup_hierarchy ''backup_root'' ''docs/Report.PDF'' [] report_io) = Some dest
              \<and> copies_of ''docs/Report.PDF'' (effects (backup_loop ''backup_root'' items initial_state)) = [dest]
              \<and> reports_of ''docs/Report.PDF'' (excluded_size_files (backup_loop ''backup_root'' items initial_state)) = [])
           \<or> (copies_of ''docs/Report.PDF'' (effects (backup_loop ''backup_root'' items initial_state)) = []
               \<and> length (reports_of ''docs/Report.PDF''
                    (excluded_size_files (backup_loop ''backup_root'' items initial_state))) = 1)"
    unfolding items_def by simp
  with e have report:
    "copies_of ''docs/Report.PDF'' (effects (backup_loop ''backup_root'' items initial_state)) = []
     \<and> length (reports_of ''docs/Report.PDF''
          (excluded_size_files (backup_loop ''backup_root'' items initial_state))) = 1"
    by auto
  from h1 n r d n_ok report show ?thesis unfolding items_def by blast
qed

subsection \<open>The exclusion log\<close>



lemma log_excluded_files_empty_example:
  "log_excluded_files [] ''2024-03-12 10:00:00'' LogOpens (Some ''old text'') =
     Some (banner @ ''\<newline>BACKUP EXCLUDED FILES LOG - 2024-03-12 10:00:00\<newline>'' @ banner @ ''\<newline>\<newline>''
       @ ''The following files were EXCLUDED from backup due to exceeding 25MB size limit:\<newline>\<newline>''
       @ ''No files were excluded.\<newline>''
       @ banner @ ''\<newline>''
       @ ''To fix this, consider using git-lfs (Large File Storage) or exclude these files in config.\<newline>'')"
  by (simp add: log_excluded_files_def log_writes_def)

subsection \<open>The git publisher\<close>

text \<open>
  C6. When \<open>git status --porcelain\<close> exits with output that is empty once stripped,
  \<open>commit_and_push\<close> runs neither \<open>git commit\<close> nor \<open>git push\<close>; and when the two
  \<open>git config\<close> calls and \<open>git add\<close> before it have passed, so that the status is reached,
  it returns \<open>True\<close> after exactly these four commands.
\<close>

theorem commit_and_push_no_changes:
  assumes "git w repo_path [''git'', ''status'', ''--porcelain''] = Exit returncode out decodes"
    and "strip out = []"
  shows "[''git'', ''commit'', ''-m'', commit_message] \<notin> set (snd (commit_and_push w repo_path commit_message))
         \<and> [''git'', ''push'', ''-u'', ''origin'', ''main''] \<notin> set (snd (commit_and_push w repo_path commit_message))
         \<and> (check_call (git w repo_path [''git'', ''config'', ''user.email'', ''backup@automated.local'']) = None
            \<and> check_call (git w repo_path [''git'', ''config'', ''user.name'', ''Backup Bot'']) = None
            \<and> check_call (git w repo_path [''git'', ''add'', ''.'']) = None
            \<longrightarrow> commit_and_push w repo_path commit_message =
                  (Returned True,
                   [[''git'', ''config'', ''user.email'', ''backup@automated.local''],
                    [''git'', ''config'', ''user.name'', ''Backup Bot''],
                    [''git'', ''add'', ''.''],
                    [''git'', ''status'', ''--porcelain'']]))"
  using assms
  by (simp add: commit_and_push_def Let_def split: option.splits)


theorem commit_and_push_no_changes_witness:
  "git example_world ''/backups'' [''git'', ''status'', ''--porcelain''] = Exit 0 [] True
   \<and> strip [] = []
   \<and> commit_and_push example_world ''/backups'' ''Auto backup'' =
        (Returned True,
         [[''git'', ''config'', ''user.email'', ''backup@automated.local''],
          [''git'', ''config'', ''user.name'', ''Backup Bot''],
          [''git'', ''add'', ''.''],
          [''git'', ''status'', ''--porcelain'']])"
proof -
  have h1: "git example_world ''/backups'' [''git'', ''status'', ''--porcelain''] = Exit 0 [] True"
    by (simp add: example_world_def)
  have h2: "strip [] = []" by (simp add: strip_def)
  have c: "check_call (git example_world ''/backups'' argv) = None" for argv
    by (simp add: example_world_def check_call_def)
  from commit_and_push_no_changes [OF h1 h2, of "''Auto backup''"] c h1 h2
  show ?thesis by blast
qed






end
